theory Spec2Isabelle
  imports
    Main
    "HOL-Library.Finite_Map"
    "HOL-Library.Char_ord"
    "HOL-Library.List_Lexorder"
begin

section \<open>The TTL cache of cache.go\<close>

text \<open>
  A shallow embedding of \<^verbatim>\<open>cache.go\<close>. The clock is an explicit argument: every
  operation that reads \<^verbatim>\<open>time.Now()\<close> takes the reading \<open>now\<close>, one reading per call.
  The read/write mutex of the struct is not part of the state; each operation is one atomic
  step of a sequential history.
\<close>

subsection \<open>Time\<close>

text \<open>Instants and durations are counted in nanoseconds, as \<^verbatim>\<open>time.Duration\<close> does.\<close>

type_synonym instant = int
type_synonym Duration = int

definition Millisecond :: Duration where
  "Millisecond = 1000000"

definition Second :: Duration where
  "Second = 1000 * Millisecond"

subsection \<open>Item\<close>

text \<open>
  \<^verbatim>\<open>data interface{}\<close> is \<open>None\<close> for \<^verbatim>\<open>nil\<close>; the expiration is \<open>None\<close> as long as the
  item was never touched.
\<close>

record 'v Item =
  data :: "'v option"
  expires :: "instant option"

text \<open>
  Modelled from the spec: the methods \<^verbatim>\<open>touch\<close> and \<^verbatim>\<open>expired\<close> of \<^verbatim>\<open>Item\<close> are
  called by \<^verbatim>\<open>cache.go\<close> but declared in a file that is not among the sources. The spec
  (4.1): \<^verbatim>\<open>touch(ttl)\<close> sets \<^verbatim>\<open>expiresAt = now + ttl\<close>, mutating the entry in place.
\<close>

definition touch :: "instant \<Rightarrow> Duration \<Rightarrow> 'v Item \<Rightarrow> 'v Item" where
  "touch now d item = item\<lparr>expires := Some (now + d)\<rparr>"

text \<open>
  Modelled from the spec: \<^verbatim>\<open>expired()\<close> (4.1) returns true iff \<^verbatim>\<open>expiresAt\<close> is set and
  strictly in the past relative to now.
\<close>

definition expired :: "instant \<Rightarrow> 'v Item \<Rightarrow> bool" where
  "expired now item = (case expires item of None \<Rightarrow> False | Some t \<Rightarrow> t < now)"

subsection \<open>Cache\<close>

text \<open>
  \<^verbatim>\<open>items map[string]*Item\<close> is a finite map, \<open>None\<close> for the \<^verbatim>\<open>nil\<close> map of a
  zero-valued struct. Every pointer stored in the map is freshly allocated by the
  operation that stores it and is reachable through its key only, so the items are stored
  by value. The field \<open>tickers\<close> is not a field of the struct: it records the effect
  of \<^verbatim>\<open>startTTLCleanupTimer\<close>, one period per ticker goroutine started, in starting order.
\<close>

record 'v Cache =
  ttl :: Duration
  items :: "(string, 'v Item) fmap option"
  isTTL :: bool
  tickers :: "Duration list"

datatype error = NilMapAssign

text \<open>The built-in operations of Go on a map that may be \<^verbatim>\<open>nil\<close>.\<close>

definition map_index :: "('k, 'a) fmap option \<Rightarrow> 'k \<Rightarrow> 'a option" where
  "map_index m k = (case m of None \<Rightarrow> None | Some f \<Rightarrow> fmlookup f k)"

definition map_assign :: "('k, 'a) fmap option \<Rightarrow> 'k \<Rightarrow> 'a \<Rightarrow> error + ('k, 'a) fmap option" where
  "map_assign m k v = (case m of None \<Rightarrow> Inl NilMapAssign | Some f \<Rightarrow> Inr (Some (fmupd k v f)))"

definition map_delete :: "('k, 'a) fmap option \<Rightarrow> 'k \<Rightarrow> ('k, 'a) fmap option" where
  "map_delete m k = (case m of None \<Rightarrow> None | Some f \<Rightarrow> Some (fmdrop k f))"

definition map_len :: "('k, 'a) fmap option \<Rightarrow> int" where
  "map_len m = (case m of None \<Rightarrow> 0 | Some f \<Rightarrow> int (fcard (fmdom f)))"

text \<open>
  \<^verbatim>\<open>for key, item := range m\<close> visits every entry once, in an order Go leaves open; the
  model visits them in key order.
\<close>

definition map_range :: "('k::linorder, 'a) fmap option \<Rightarrow> ('k \<times> 'a) list" where
  "map_range m = (case m of None \<Rightarrow> [] | Some f \<Rightarrow> sorted_list_of_fmap f)"

subsection \<open>Operations\<close>

definition Set :: "instant \<Rightarrow> string \<Rightarrow> 'v option \<Rightarrow> 'v Cache \<Rightarrow> error + 'v Cache" where
  "Set now key d cache =
    (let item = \<lparr>data = d, expires = None\<rparr>;
         item = (if isTTL cache then touch now (ttl cache) item else item)
     in case map_assign (items cache) key item of
          Inl e \<Rightarrow> Inl e
        | Inr m \<Rightarrow> Inr (cache\<lparr>items := m\<rparr>))"

definition startTTLCleanupTimer :: "'v Cache \<Rightarrow> 'v Cache" where
  "startTTLCleanupTimer cache =
    (if isTTL cache then
       (let duration = ttl cache;
            duration = (if duration < Millisecond then Millisecond else duration)
        in cache\<lparr>tickers := tickers cache @ [duration]\<rparr>)
     else cache)"

definition SetTTL :: "instant \<Rightarrow> string \<Rightarrow> 'v option \<Rightarrow> Duration \<Rightarrow> 'v Cache \<Rightarrow> error + 'v Cache" where
  "SetTTL now key d t cache =
    (let cache = (if \<not> isTTL cache then startTTLCleanupTimer (cache\<lparr>isTTL := True\<rparr>) else cache);
         item = touch now t \<lparr>data = d, expires = None\<rparr>
     in case map_assign (items cache) key item of
          Inl e \<Rightarrow> Inl e
        | Inr m \<Rightarrow> Inr (cache\<lparr>items := m\<rparr>))"

text \<open>
  \<^verbatim>\<open>Get\<close> returns \<^verbatim>\<open>(data, found)\<close> and the cache after the call. In TTL mode the item
  found is touched in place through its pointer; its key is in the map, so the write back
  cannot fail.
\<close>

definition Get :: "instant \<Rightarrow> string \<Rightarrow> 'v Cache \<Rightarrow> ('v option \<times> bool) \<times> 'v Cache" where
  "Get now key cache =
    (let found = map_index (items cache) key
     in if isTTL cache then
          (case found of
             None \<Rightarrow> ((None, False), cache)
           | Some item \<Rightarrow>
               if expired now item then ((None, False), cache)
               else
                 (let item = touch now (ttl cache) item
                  in ((data item, True),
                      cache\<lparr>items := map_option (fmupd key item) (items cache)\<rparr>)))
        else
          (case found of
             Some item \<Rightarrow> ((data item, True), cache)
           | None \<Rightarrow> ((None, False), cache)))"

definition Count :: "'v Cache \<Rightarrow> int \<times> 'v Cache" where
  "Count cache = (map_len (items cache), cache)"

definition Clear :: "'v Cache \<Rightarrow> 'v Cache" where
  "Clear cache =
    cache\<lparr>items := fold (\<lambda>(key, item) m. map_delete m key) (map_range (items cache)) (items cache)\<rparr>"

definition ttlCleanup :: "instant \<Rightarrow> 'v Cache \<Rightarrow> 'v Cache" where
  "ttlCleanup now cache =
    (if isTTL cache then
       cache\<lparr>items :=
         fold (\<lambda>(key, item) m. if expired now item then map_delete m key else m)
           (map_range (items cache)) (items cache)\<rparr>
     else cache)"

definition Delete :: "string \<Rightarrow> 'v Cache \<Rightarrow> 'v Cache" where
  "Delete key cache =
    (case map_index (items cache) key of
       Some item \<Rightarrow> cache\<lparr>items := map_delete (items cache) key\<rparr>
     | None \<Rightarrow> cache)"

definition NewTTLCache :: "Duration \<Rightarrow> 'v Cache" where
  "NewTTLCache duration =
    startTTLCleanupTimer \<lparr>ttl = duration, items = Some fmempty, isTTL = True, tickers = []\<rparr>"

definition NewCache :: "'v Cache" where
  "NewCache = \<lparr>ttl = 0, items = Some fmempty, isTTL = False, tickers = []\<rparr>"

subsection \<open>Histories\<close>

text \<open>
  The calls a cache can receive: the six public methods and the tick of a cleanup
  goroutine. A history is a list of calls, each with the clock reading of its call; it stops
  at the first panic.
\<close>

datatype 'v op =
    OpSet string "'v option"
  | OpSetTTL string "'v option" Duration
  | OpGet string
  | OpCount
  | OpClear
  | OpDelete string
  | OpTick

fun step :: "instant \<Rightarrow> 'v op \<Rightarrow> 'v Cache \<Rightarrow> error + 'v Cache" where
  "step now (OpSet key d) cache = Set now key d cache"
| "step now (OpSetTTL key d t) cache = SetTTL now key d t cache"
| "step now (OpGet key) cache = Inr (snd (Get now key cache))"
| "step now OpCount cache = Inr (snd (Count cache))"
| "step now OpClear cache = Inr (Clear cache)"
| "step now (OpDelete key) cache = Inr (Delete key cache)"
| "step now OpTick cache = Inr (ttlCleanup now cache)"

fun run :: "(instant \<times> 'v op) list \<Rightarrow> 'v Cache \<Rightarrow> error + 'v Cache" where
  "run [] cache = Inr cache"
| "run ((now, call) # rest) cache =
    (case step now call cache of
       Inl e \<Rightarrow> Inl e
     | Inr cache' \<Rightarrow> run rest cache')"

subsection \<open>The mode invariant\<close>

text \<open>
  The invariant the data model asks for: in unbounded mode no entry carries an expiration,
  in TTL mode every entry carries one.
\<close>

definition mode_invariant :: "'v Cache \<Rightarrow> bool" where
  "mode_invariant cache =
    (if isTTL cache then list_all (\<lambda>(key, item). expires item \<noteq> None) (map_range (items cache))
     else list_all (\<lambda>(key, item). expires item = None) (map_range (items cache)))"

subsection \<open>Example caches\<close>

definition ttl_example :: "nat Cache" where
  "ttl_example =
    \<lparr>ttl = Second,
     items = Some (fmupd ''x'' \<lparr>data = Some 1, expires = Some 700\<rparr>
               (fmupd ''z'' \<lparr>data = Some 3, expires = Some 300\<rparr> fmempty)),
     isTTL = True,
     tickers = [Second]\<rparr>"

definition unbounded_example :: "nat Cache" where
  "unbounded_example =
    \<lparr>ttl = 0,
     items = Some (fmupd ''hello'' \<lparr>data = Some 7, expires = None\<rparr> fmempty),
     isTTL = False,
     tickers = []\<rparr>"

text \<open>
  The calls of the usage example of the Readme for item specific TTLs, up to its lookup: a
  plain write to a cache made by \<^verbatim>\<open>NewCache\<close>, then a write with a TTL of two seconds.
\<close>

definition readme_history :: "(instant \<times> nat op) list" where
  "readme_history =
    [(0, OpSet ''key'' (Some 200)),
     (10, OpSetTTL ''foo'' (Some 5) (2 * Second))]"

definition key_only :: "nat Cache" where
  "key_only =
    \<lparr>ttl = 0,
     items = Some (fmupd ''key'' \<lparr>data = Some 200, expires = None\<rparr> fmempty),
     isTTL = False,
     tickers = []\<rparr>"

definition key_and_foo :: "nat Cache" where
  "key_and_foo =
    \<lparr>ttl = 0,
     items = Some (fmupd ''foo'' \<lparr>data = Some 5, expires = Some (10 + 2 * Second)\<rparr>
               (fmupd ''key'' \<lparr>data = Some 200, expires = None\<rparr> fmempty)),
     isTTL = True,
     tickers = [Millisecond]\<rparr>"

section \<open>Properties\<close>

subsection \<open>The range loops\<close>

lemma set_sorted_list_of_fmap:
  "((k, v) \<in> set (sorted_list_of_fmap f)) = (fmlookup f k = Some v)"
  by (auto simp: sorted_list_of_fmap_def fmlookup_dom_iff)

lemma fold_delete_Some:
  "fold (\<lambda>(key, item) m. if P item then map_delete m key else m) kvs (Some f) =
   Some (fold (\<lambda>(key, item) m. if P item then fmdrop key m else m) kvs f)"
  by (induction kvs arbitrary: f) (auto simp: map_delete_def)

lemma fold_fmdrop_lookup:
  "fmlookup (fold (\<lambda>(key, item) m. if P item then fmdrop key m else m) kvs f) k =
   (if \<exists>it. (k, it) \<in> set kvs \<and> P it then None else fmlookup f k)"
  by (induction kvs arbitrary: f) auto

lemma range_delete_index:
  "map_index (fold (\<lambda>(key, item) m. if P item then map_delete m key else m) (map_range m) m) k =
   (case map_index m k of None \<Rightarrow> None | Some it \<Rightarrow> if P it then None else Some it)"
proof (cases m)
  case None
  then show ?thesis by (simp add: map_range_def map_index_def)
next
  case (Some f)
  then show ?thesis
    by (simp add: map_range_def map_index_def fold_delete_Some fold_fmdrop_lookup
        set_sorted_list_of_fmap split: option.splits)
qed

lemma range_delete_nil:
  "(fold (\<lambda>(key, item) m. if P item then map_delete m key else m) (map_range m) m = None) =
   (m = None)"
  by (cases m) (simp_all add: map_range_def fold_delete_Some)

lemma range_all:
  "list_all (\<lambda>(key, item). P item) (map_range m) = (\<forall>k it. map_index m k = Some it \<longrightarrow> P it)"
  by (cases m) (auto simp: map_range_def map_index_def list_all_iff set_sorted_list_of_fmap)

lemma map_len_card: "map_len m = int (card {k. \<exists>it. map_index m k = Some it})"
proof (cases m)
  case None
  then show ?thesis by (simp add: map_len_def map_index_def)
next
  case (Some f)
  have "{k. \<exists>it. fmlookup f k = Some it} = fset (fmdom f)"
    by (auto simp: fmlookup_dom_iff)
  then show ?thesis using Some by (simp add: map_len_def map_index_def fcard.rep_eq)
qed

subsection \<open>Lookups\<close>

text \<open>
  Claim C1. In TTL mode \<^verbatim>\<open>Get\<close> answers \<open>(nil, false)\<close> for a key that is not in the map and
  for a key whose entry is expired, also when the entry is still stored. For a key with an
  entry that is not expired it answers the stored value and \<open>true\<close>, and the entry is touched
  with the default TTL of the cache: its expiration becomes \<open>now + ttl\<close>. The other entries
  and the fields of the cache stay as they were.
\<close>

theorem Get_ttl_mode:
  assumes "isTTL c"
  shows "(map_index (items c) k = None \<longrightarrow> Get now k c = ((None, False), c)) \<and>
    (\<forall>it. map_index (items c) k = Some it \<and> expired now it \<longrightarrow>
       Get now k c = ((None, False), c)) \<and>
    (\<forall>it. map_index (items c) k = Some it \<and> \<not> expired now it \<longrightarrow>
       fst (Get now k c) = (data it, True) \<and>
       map_index (items (snd (Get now k c))) k = Some (it\<lparr>expires := Some (now + ttl c)\<rparr>) \<and>
       (\<forall>k'. k' \<noteq> k \<longrightarrow> map_index (items (snd (Get now k c))) k' = map_index (items c) k') \<and>
       ttl (snd (Get now k c)) = ttl c \<and>
       isTTL (snd (Get now k c)) \<and>
       tickers (snd (Get now k c)) = tickers c)"
  using assms
  by (cases "items c") (auto simp: Get_def map_index_def touch_def Let_def)

theorem Get_ttl_mode_witness:
  "isTTL ttl_example \<and>
   map_index (items ttl_example) ''y'' = None \<and>
   Get 500 ''y'' ttl_example = ((None, False), ttl_example) \<and>
   map_index (items ttl_example) ''z'' = Some \<lparr>data = Some 3, expires = Some 300\<rparr> \<and>
   expired 500 \<lparr>data = Some (3::nat), expires = Some 300\<rparr> \<and>
   Get 500 ''z'' ttl_example = ((None, False), ttl_example) \<and>
   map_index (items ttl_example) ''x'' = Some \<lparr>data = Some 1, expires = Some 700\<rparr> \<and>
   \<not> expired 500 \<lparr>data = Some (1::nat), expires = Some 700\<rparr> \<and>
   fst (Get 500 ''x'' ttl_example) = (Some 1, True) \<and>
   map_index (items (snd (Get 500 ''x'' ttl_example))) ''x'' =
     Some \<lparr>data = Some 1, expires = Some (500 + Second)\<rparr>"
proof -
  have mode: "isTTL ttl_example"
    by (simp add: ttl_example_def)
  have y: "map_index (items ttl_example) ''y'' = None"
    by (simp add: ttl_example_def map_index_def)
  have z: "map_index (items ttl_example) ''z'' = Some \<lparr>data = Some 3, expires = Some 300\<rparr>"
    by (simp add: ttl_example_def map_index_def)
  have z_old: "expired 500 \<lparr>data = Some (3::nat), expires = Some 300\<rparr>"
    by (simp add: expired_def)
  have x: "map_index (items ttl_example) ''x'' = Some \<lparr>data = Some 1, expires = Some 700\<rparr>"
    by (simp add: ttl_example_def map_index_def)
  have x_fresh: "\<not> expired 500 \<lparr>data = Some (1::nat), expires = Some 700\<rparr>"
    by (simp add: expired_def)
  have default: "ttl ttl_example = Second"
    by (simp add: ttl_example_def)
  from Get_ttl_mode [OF mode, of "''y''" 500] y
  have get_y: "Get 500 ''y'' ttl_example = ((None, False), ttl_example)"
    by simp
  from Get_ttl_mode [OF mode, of "''z''" 500] z z_old
  have get_z: "Get 500 ''z'' ttl_example = ((None, False), ttl_example)"
    by blast
  from Get_ttl_mode [OF mode, of "''x''" 500] x x_fresh
  have get_x: "fst (Get 500 ''x'' ttl_example) = (Some 1, True) \<and>
      map_index (items (snd (Get 500 ''x'' ttl_example))) ''x'' =
        Some \<lparr>data = Some 1, expires = Some (500 + Second)\<rparr>"
    by (simp add: default)
  from mode y z z_old x x_fresh get_y get_z get_x show ?thesis
    by blast
qed

text \<open>
  Claim C9. In unbounded mode \<^verbatim>\<open>Get\<close> answers the stored value and \<open>true\<close> for a key in
  the map, \<open>(nil, false)\<close> for any other key, and the cache after the call is the cache
  before it: the map, every entry and every field.
\<close>

theorem Get_unbounded_mode:
  assumes "\<not> isTTL c"
  shows "Get now k c =
    (case map_index (items c) k of
       Some it \<Rightarrow> ((data it, True), c)
     | None \<Rightarrow> ((None, False), c))"
  using assms by (simp add: Get_def Let_def split: option.splits)

theorem Get_unbounded_mode_witness:
  "\<not> isTTL unbounded_example \<and>
   Get 900 ''hello'' unbounded_example = ((Some 7, True), unbounded_example) \<and>
   Get 900 ''world'' unbounded_example = ((None, False), unbounded_example)"
proof -
  have mode: "\<not> isTTL unbounded_example"
    by (simp add: unbounded_example_def)
  have hello: "map_index (items unbounded_example) ''hello'' =
      Some \<lparr>data = Some 7, expires = None\<rparr>"
    by (simp add: unbounded_example_def map_index_def)
  have world: "map_index (items unbounded_example) ''world'' = None"
    by (simp add: unbounded_example_def map_index_def)
  show ?thesis
    using mode Get_unbounded_mode [OF mode, of 900 "''hello''"]
      Get_unbounded_mode [OF mode, of 900 "''world''"]
    by (simp add: hello world)
qed

subsection \<open>Size\<close>

text \<open>
  Claim C5. \<^verbatim>\<open>Count\<close> answers the number of keys stored in the map. It reads no clock and
  no expiration, so an expired entry that is still stored is counted. The cache after the
  call is the cache before it.
\<close>

theorem Count_raw_size:
  "fst (Count c) = int (card {k. \<exists>it. map_index (items c) k = Some it}) \<and> snd (Count c) = c"
  by (simp add: Count_def map_len_card)

text \<open>
  In the example cache the entry at \<open>z\<close> is expired at the instant 500 and a lookup does not
  find it; it is counted all the same, until a tick removes it.
\<close>

lemma Count_counts_expired:
  "fst (Get 500 ''z'' ttl_example) = (None, False) \<and>
   fst (Count ttl_example) = 2 \<and>
   fst (Count (ttlCleanup 500 ttl_example)) = 1"
  by code_simp

subsection \<open>The cleanup tick\<close>

text \<open>
  Claim C2. A tick in TTL mode removes the entries that are expired at the tick and no
  other: after it a key is bound iff it was bound to an entry that is not expired, and
  then to the same entry. A tick in unbounded mode leaves the cache as it was.
\<close>

theorem ttlCleanup_tick:
  "(isTTL c \<longrightarrow>
      (\<forall>k. map_index (items (ttlCleanup now c)) k =
         (case map_index (items c) k of
            None \<Rightarrow> None
          | Some it \<Rightarrow> if expired now it then None else Some it)) \<and>
      ttl (ttlCleanup now c) = ttl c \<and> isTTL (ttlCleanup now c) \<and>
      tickers (ttlCleanup now c) = tickers c) \<and>
   (\<not> isTTL c \<longrightarrow> ttlCleanup now c = c)"
  by (simp add: ttlCleanup_def range_delete_index)

theorem ttlCleanup_tick_witness:
  "isTTL ttl_example \<and>
   map_index (items (ttlCleanup 500 ttl_example)) ''z'' = None \<and>
   map_index (items (ttlCleanup 500 ttl_example)) ''x'' =
     Some \<lparr>data = Some 1, expires = Some 700\<rparr> \<and>
   \<not> isTTL unbounded_example \<and>
   ttlCleanup 500 unbounded_example = unbounded_example"
proof -
  have mode: "isTTL ttl_example"
    by (simp add: ttl_example_def)
  have z: "map_index (items ttl_example) ''z'' = Some \<lparr>data = Some 3, expires = Some 300\<rparr>"
    by (simp add: ttl_example_def map_index_def)
  have x: "map_index (items ttl_example) ''x'' = Some \<lparr>data = Some 1, expires = Some 700\<rparr>"
    by (simp add: ttl_example_def map_index_def)
  have off: "\<not> isTTL unbounded_example"
    by (simp add: unbounded_example_def)
  show ?thesis
    using mode off ttlCleanup_tick [of ttl_example 500] ttlCleanup_tick [of unbounded_example 500]
    by (simp add: z x expired_def)
qed

subsection \<open>One call\<close>

lemma Clear_index: "map_index (items (Clear c)) k = None"
  using range_delete_index [of "\<lambda>it. True" "items c" k]
  by (simp add: Clear_def split: option.splits)

lemma Clear_nil: "(items (Clear c) = None) = (items c = None)"
  using range_delete_nil [of "\<lambda>it. True" "items c"] by (simp add: Clear_def)

lemma ttlCleanup_nil: "(items (ttlCleanup now c) = None) = (items c = None)"
  by (simp add: ttlCleanup_def range_delete_nil)

lemma Delete_index:
  "map_index (items (Delete key c)) k = (if k = key then None else map_index (items c) k)"
  by (cases "items c") (auto simp: Delete_def map_index_def map_delete_def split: option.splits)

lemma Set_index:
  assumes "Set now key d c = Inr c'"
  shows "map_index (items c') k =
    (if k = key then Some \<lparr>data = d, expires = (if isTTL c then Some (now + ttl c) else None)\<rparr>
     else map_index (items c) k)"
  using assms
  by (cases "items c") (auto simp: Set_def map_assign_def map_index_def touch_def)

lemma SetTTL_index:
  assumes "SetTTL now key d t c = Inr c'"
  shows "map_index (items c') k =
    (if k = key then Some \<lparr>data = d, expires = Some (now + t)\<rparr> else map_index (items c) k)"
  using assms
  by (cases "items c")
    (auto simp: SetTTL_def startTTLCleanupTimer_def map_assign_def map_index_def touch_def Let_def
      split: if_splits)

lemma Get_index:
  "map_index (items (snd (Get now key c))) k =
    (case map_index (items c) k of
       None \<Rightarrow> None
     | Some it \<Rightarrow>
         if k = key \<and> isTTL c \<and> \<not> expired now it then Some (it\<lparr>expires := Some (now + ttl c)\<rparr>)
         else Some it)"
  by (cases "items c") (auto simp: Get_def map_index_def touch_def Let_def split: option.splits)

lemma step_fields:
  assumes "step now call c = Inr c'"
  shows "ttl c' = ttl c"
    and "isTTL c \<Longrightarrow> isTTL c' \<and> tickers c' = tickers c"
    and "\<not> isTTL c \<Longrightarrow> \<not> isTTL c' \<Longrightarrow> tickers c' = tickers c"
    and "\<not> isTTL c \<Longrightarrow> isTTL c' \<Longrightarrow>
      (\<exists>k v t. call = OpSetTTL k v t) \<and> tickers c' = tickers c @ [max (ttl c) Millisecond]"
  using assms
  by (cases call;
      auto simp: Set_def SetTTL_def Get_def Count_def Clear_def Delete_def ttlCleanup_def
        startTTLCleanupTimer_def Let_def max_def
        split: sum.splits option.splits if_splits)+

lemma step_total:
  assumes "items c \<noteq> None"
  shows "\<exists>c'. step now call c = Inr c' \<and> items c' \<noteq> None"
proof (cases call)
  case (OpSet key d)
  with assms show ?thesis by (auto simp: Set_def map_assign_def Let_def)
next
  case (OpSetTTL key d t)
  with assms show ?thesis
    by (auto simp: SetTTL_def startTTLCleanupTimer_def map_assign_def Let_def)
next
  case (OpGet key)
  with assms show ?thesis by (auto simp: Get_def Let_def split: option.splits)
next
  case OpCount
  with assms show ?thesis by (simp add: Count_def)
next
  case OpClear
  with assms show ?thesis by (simp add: Clear_nil del: not_None_eq)
next
  case (OpDelete key)
  with assms show ?thesis by (auto simp: Delete_def map_delete_def split: option.splits)
next
  case OpTick
  with assms show ?thesis by (simp add: ttlCleanup_nil del: not_None_eq)
qed

lemma mode_invariant_iff:
  "mode_invariant c =
    (\<forall>k it. map_index (items c) k = Some it \<longrightarrow> (expires it \<noteq> None) = isTTL c)"
  by (auto simp: mode_invariant_def range_all)

lemma step_mode_invariant:
  assumes "mode_invariant c" and "step now call c = Inr c'" and "isTTL c' = isTTL c"
  shows "mode_invariant c'"
proof (cases call)
  case (OpSet key d)
  with assms show ?thesis
    by (auto simp: mode_invariant_iff Set_index split: if_splits)
next
  case (OpSetTTL key d t)
  with assms(2) have "isTTL c'"
    by (auto simp: SetTTL_def startTTLCleanupTimer_def Let_def split: sum.splits if_splits)
  with OpSetTTL assms show ?thesis
    by (auto simp: mode_invariant_iff SetTTL_index split: if_splits)
next
  case (OpGet key)
  with assms show ?thesis
    by (auto simp: mode_invariant_iff Get_index split: option.splits if_splits)
next
  case OpCount
  with assms show ?thesis by (simp add: Count_def)
next
  case OpClear
  with assms show ?thesis by (auto simp: mode_invariant_iff Clear_index)
next
  case (OpDelete key)
  with assms show ?thesis
    by (auto simp: mode_invariant_iff Delete_index split: if_splits)
next
  case OpTick
  with assms show ?thesis
    by (auto simp: mode_invariant_iff ttlCleanup_def range_delete_index
        split: option.splits if_splits)
qed

subsection \<open>Histories of calls\<close>

lemma run_ttl: "run h c = Inr c' \<Longrightarrow> ttl c' = ttl c"
proof (induction h arbitrary: c)
  case Nil
  then show ?case by simp
next
  case (Cons a h)
  then show ?case
    by (cases a) (auto split: sum.splits dest: step_fields(1))
qed

lemma run_isTTL: "run h c = Inr c' \<Longrightarrow> isTTL c \<Longrightarrow> isTTL c' \<and> tickers c' = tickers c"
proof (induction h arbitrary: c)
  case Nil
  then show ?case by simp
next
  case (Cons a h)
  obtain now call where a: "a = (now, call)" by (cases a)
  with Cons.prems obtain c1 where s: "step now call c = Inr c1" and r: "run h c1 = Inr c'"
    by (auto split: sum.splits)
  from step_fields(2) [OF s] Cons.prems(2) have "isTTL c1 \<and> tickers c1 = tickers c"
    by simp
  with Cons.IH [OF r] show ?case by simp
qed

lemma run_total: "items c \<noteq> None \<Longrightarrow> \<exists>c'. run h c = Inr c' \<and> items c' \<noteq> None"
proof (induction h arbitrary: c)
  case Nil
  then show ?case by simp
next
  case (Cons a h)
  obtain now call where a: "a = (now, call)" by (cases a)
  from step_total [OF Cons.prems] obtain c1
    where s: "step now call c = Inr c1" and m: "items c1 \<noteq> None"
    by blast
  from Cons.IH [OF m] a s show ?case by simp
qed

lemma run_tickers:
  "run h c = Inr c' \<Longrightarrow> \<not> isTTL c \<Longrightarrow>
   tickers c' = (if isTTL c' then tickers c @ [max (ttl c) Millisecond] else tickers c)"
proof (induction h arbitrary: c)
  case Nil
  then show ?case by simp
next
  case (Cons a h)
  obtain now call where a: "a = (now, call)" by (cases a)
  with Cons.prems obtain c1 where s: "step now call c = Inr c1" and r: "run h c1 = Inr c'"
    by (auto split: sum.splits)
  show ?case
  proof (cases "isTTL c1")
    case True
    from step_fields(4) [OF s Cons.prems(2) True]
    have "tickers c1 = tickers c @ [max (ttl c) Millisecond]" by simp
    with run_isTTL [OF r True] show ?thesis by simp
  next
    case False
    from step_fields(3) [OF s Cons.prems(2) False] step_fields(1) [OF s] Cons.IH [OF r False]
    show ?thesis by simp
  qed
qed

lemma run_mode_invariant:
  "run h c = Inr c' \<Longrightarrow> mode_invariant c \<Longrightarrow> isTTL c' = isTTL c \<Longrightarrow> mode_invariant c'"
proof (induction h arbitrary: c)
  case Nil
  then show ?case by simp
next
  case (Cons a h)
  obtain now call where a: "a = (now, call)" by (cases a)
  with Cons.prems obtain c1 where s: "step now call c = Inr c1" and r: "run h c1 = Inr c'"
    by (auto split: sum.splits)
  have same: "isTTL c1 = isTTL c"
  proof (cases "isTTL c")
    case True
    with step_fields(2) [OF s] show ?thesis by simp
  next
    case False
    with Cons.prems(3) have "\<not> isTTL c'" by simp
    with run_isTTL [OF r] have "\<not> isTTL c1" by blast
    with False show ?thesis by simp
  qed
  from step_mode_invariant [OF Cons.prems(2) s same] have "mode_invariant c1" .
  with Cons.IH [OF r] same Cons.prems(3) show ?case by simp
qed

lemma readme_history_run: "run readme_history NewCache = Inr key_and_foo"
  by (simp add: readme_history_def NewCache_def key_and_foo_def Set_def SetTTL_def
      startTTLCleanupTimer_def map_assign_def touch_def Millisecond_def Second_def)

lemma Get_found:
  assumes "isTTL c" and "Get now k c = ((v, True), c')"
  shows "\<exists>it. map_index (items c) k = Some it \<and> \<not> expired now it \<and> data it = v"
  using assms
  by (auto simp: Get_def Let_def touch_def split: option.splits if_splits)

lemma key_only_invariant: "mode_invariant key_only"
  by (auto simp: mode_invariant_iff key_only_def map_index_def split: if_splits)

lemma ttl_example_invariant: "mode_invariant ttl_example"
  by (auto simp: mode_invariant_iff ttl_example_def map_index_def split: if_splits)

subsection \<open>The default TTL\<close>

text \<open>
  Claim C3. \<^verbatim>\<open>SetTTL\<close> leaves the field \<^verbatim>\<open>ttl\<close> as it was. A cache made by \<^verbatim>\<open>NewCache\<close>
  has the zero duration there, after any history of calls; once such a cache is in TTL mode,
  \<^verbatim>\<open>Set\<close> stores its entry with the expiration \<open>now\<close>, a \<^verbatim>\<open>Get\<close> that finds its
  entry leaves it with the expiration \<open>now\<close>, and such an entry is expired at every later
  instant.
\<close>

theorem SetTTL_keeps_default_ttl:
  "(SetTTL now0 k0 v0 t0 c0 = Inr c1 \<longrightarrow> ttl c1 = ttl c0) \<and>
   (run h NewCache = Inr c \<and> isTTL c \<longrightarrow>
      ttl c = 0 \<and>
      (\<forall>now k v c'. Set now k v c = Inr c' \<longrightarrow>
         (\<exists>it. map_index (items c') k = Some it \<and> data it = v \<and> expires it = Some now \<and>
            (\<forall>later. now < later \<longrightarrow> expired later it))) \<and>
      (\<forall>now k v c'. Get now k c = ((v, True), c') \<longrightarrow>
         (\<exists>it. map_index (items c') k = Some it \<and> data it = v \<and> expires it = Some now \<and>
            (\<forall>later. now < later \<longrightarrow> expired later it))))"
proof (intro conjI impI)
  assume "SetTTL now0 k0 v0 t0 c0 = Inr c1"
  then have "step now0 (OpSetTTL k0 v0 t0) c0 = Inr c1" by simp
  then show "ttl c1 = ttl c0" by (rule step_fields(1))
next
  assume a: "run h NewCache = Inr c \<and> isTTL c"
  with run_ttl [of h NewCache c] show zero: "ttl c = 0"
    by (simp add: NewCache_def)
  show "\<forall>now k v c'. Set now k v c = Inr c' \<longrightarrow>
      (\<exists>it. map_index (items c') k = Some it \<and> data it = v \<and> expires it = Some now \<and>
         (\<forall>later. now < later \<longrightarrow> expired later it))"
  proof (intro allI impI)
    fix now k v c'
    assume "Set now k v c = Inr c'"
    from Set_index [OF this, of k] a zero
    have "map_index (items c') k = Some \<lparr>data = v, expires = Some now\<rparr>" by simp
    then show "\<exists>it. map_index (items c') k = Some it \<and> data it = v \<and> expires it = Some now \<and>
        (\<forall>later. now < later \<longrightarrow> expired later it)"
      by (simp add: expired_def)
  qed
  show "\<forall>now k v c'. Get now k c = ((v, True), c') \<longrightarrow>
      (\<exists>it. map_index (items c') k = Some it \<and> data it = v \<and> expires it = Some now \<and>
         (\<forall>later. now < later \<longrightarrow> expired later it))"
  proof (intro allI impI)
    fix now k v c'
    assume g: "Get now k c = ((v, True), c')"
    from a Get_found [OF _ g] obtain it0
      where it0: "map_index (items c) k = Some it0" "\<not> expired now it0" "data it0 = v"
      by blast
    from g have "c' = snd (Get now k c)" by simp
    with Get_index [of now k c k] it0 a zero
    have "map_index (items c') k = Some (it0\<lparr>expires := Some now\<rparr>)" by simp
    with it0(3) show "\<exists>it. map_index (items c') k = Some it \<and> data it = v \<and>
        expires it = Some now \<and> (\<forall>later. now < later \<longrightarrow> expired later it)"
      by (simp add: expired_def)
  qed
qed

theorem SetTTL_keeps_default_ttl_witness:
  "run readme_history NewCache = Inr key_and_foo \<and> isTTL key_and_foo \<and>
   ttl key_and_foo = 0 \<and>
   Get 20 ''key'' key_and_foo = ((Some 200, True), snd (Get 20 ''key'' key_and_foo)) \<and>
   (\<exists>it. map_index (items (snd (Get 20 ''key'' key_and_foo))) ''key'' = Some it \<and>
      data it = Some 200 \<and> expires it = Some 20 \<and> (\<forall>later. 20 < later \<longrightarrow> expired later it))"
proof -
  have mode: "isTTL key_and_foo"
    by (simp add: key_and_foo_def)
  have found: "Get 20 ''key'' key_and_foo = ((Some 200, True), snd (Get 20 ''key'' key_and_foo))"
    by (simp add: Get_def key_and_foo_def map_index_def expired_def touch_def Let_def)
  from SetTTL_keeps_default_ttl [where h = readme_history and c = key_and_foo]
    readme_history_run mode found
  show ?thesis by blast
qed

subsection \<open>The mode and the cleanup goroutine\<close>

text \<open>
  Claim C4. A call on a cache in TTL mode leaves it in TTL mode and starts no ticker; a call
  that finds the cache unbounded and leaves it in TTL mode is a \<^verbatim>\<open>SetTTL\<close> and starts one
  ticker; a call that leaves the cache unbounded starts none. So a history never leaves TTL
  mode once it is reached, a cache of \<^verbatim>\<open>NewTTLCache\<close> has one ticker throughout, and a
  cache of \<^verbatim>\<open>NewCache\<close> has none while unbounded and one from the first \<^verbatim>\<open>SetTTL\<close> on.
\<close>

theorem mode_changes_once:
  "(isTTL c \<and> step now call c = Inr c' \<longrightarrow> isTTL c' \<and> tickers c' = tickers c) \<and>
   (\<not> isTTL c \<and> step now call c = Inr c' \<and> isTTL c' \<longrightarrow>
      (\<exists>k v t. call = OpSetTTL k v t) \<and> length (tickers c') = Suc (length (tickers c))) \<and>
   (\<not> isTTL c \<and> step now call c = Inr c' \<and> \<not> isTTL c' \<longrightarrow> tickers c' = tickers c) \<and>
   (isTTL c1 \<and> run h c1 = Inr c2 \<longrightarrow> isTTL c2 \<and> tickers c2 = tickers c1) \<and>
   (run h (NewTTLCache d) = Inr c3 \<longrightarrow> isTTL c3 \<and> length (tickers c3) = 1) \<and>
   (run h NewCache = Inr c4 \<longrightarrow> length (tickers c4) = (if isTTL c4 then 1 else 0))"
proof -
  have one: "isTTL c \<and> step now call c = Inr c' \<longrightarrow> isTTL c' \<and> tickers c' = tickers c"
    using step_fields(2) by blast
  have two: "\<not> isTTL c \<and> step now call c = Inr c' \<and> isTTL c' \<longrightarrow>
      (\<exists>k v t. call = OpSetTTL k v t) \<and> length (tickers c') = Suc (length (tickers c))"
    using step_fields(4) [of now call c c'] by auto
  have three: "\<not> isTTL c \<and> step now call c = Inr c' \<and> \<not> isTTL c' \<longrightarrow> tickers c' = tickers c"
    using step_fields(3) by blast
  have four: "isTTL c1 \<and> run h c1 = Inr c2 \<longrightarrow> isTTL c2 \<and> tickers c2 = tickers c1"
    using run_isTTL by blast
  have five: "run h (NewTTLCache d) = Inr c3 \<longrightarrow> isTTL c3 \<and> length (tickers c3) = 1"
    using run_isTTL [of h "NewTTLCache d" c3]
    by (auto simp: NewTTLCache_def startTTLCleanupTimer_def Let_def)
  have six: "run h NewCache = Inr c4 \<longrightarrow> length (tickers c4) = (if isTTL c4 then 1 else 0)"
    using run_tickers [of h NewCache c4] by (auto simp: NewCache_def)
  from one two three four five six show ?thesis by blast
qed

theorem mode_changes_once_witness:
  "run readme_history NewCache = Inr key_and_foo \<and> isTTL key_and_foo \<and>
   length (tickers key_and_foo) = 1 \<and>
   (\<exists>c'. step 20 (OpSetTTL ''bar'' (Some 6) Second) key_and_foo = Inr c' \<and> isTTL c' \<and>
      tickers c' = tickers key_and_foo) \<and>
   \<not> isTTL key_only \<and> step 10 (OpSetTTL ''foo'' (Some 5) (2 * Second)) key_only = Inr key_and_foo \<and>
   length (tickers key_and_foo) = Suc (length (tickers key_only))"
proof -
  have mode: "isTTL key_and_foo"
    by (simp add: key_and_foo_def)
  have off: "\<not> isTTL key_only"
    by (simp add: key_only_def)
  have first: "step 10 (OpSetTTL ''foo'' (Some 5) (2 * Second)) key_only = Inr key_and_foo"
    by (simp add: key_only_def key_and_foo_def SetTTL_def startTTLCleanupTimer_def
        map_assign_def touch_def Millisecond_def Second_def)
  have "items key_and_foo \<noteq> None"
    by (simp add: key_and_foo_def)
  from step_total [OF this] obtain c'
    where second: "step 20 (OpSetTTL ''bar'' (Some 6) Second) key_and_foo = Inr c'"
    by blast
  from mode_changes_once [where c = key_and_foo and c' = c' and now = 20
      and call = "OpSetTTL ''bar'' (Some 6) Second"] mode second
  have stay: "isTTL c' \<and> tickers c' = tickers key_and_foo"
    by blast
  from mode_changes_once [where h = readme_history and ?c4.0 = key_and_foo] readme_history_run
  have "length (tickers key_and_foo) = (if isTTL key_and_foo then 1 else 0)"
    by blast
  with mode have count: "length (tickers key_and_foo) = 1"
    by simp
  from mode_changes_once [where c = key_only and c' = key_and_foo and now = 10
      and call = "OpSetTTL ''foo'' (Some 5) (2 * Second)"] off first mode
  have started: "length (tickers key_and_foo) = Suc (length (tickers key_only))"
    by blast
  from readme_history_run mode count second stay off first started show ?thesis
    by blast
qed

text \<open>
  Claim C6. The period of the ticker is the field \<^verbatim>\<open>ttl\<close> of the cache at the moment TTL
  mode starts, or one millisecond when that is less: \<^verbatim>\<open>NewTTLCache\<close> takes it from its
  argument, the \<^verbatim>\<open>SetTTL\<close> that leaves unbounded mode takes it from the field and not
  from its own duration. No later call changes it.
\<close>

theorem ticker_period_fixed:
  "tickers (NewTTLCache d :: 'v Cache) = [max d Millisecond] \<and>
   (\<not> isTTL c \<and> SetTTL now k v t c = Inr c' \<longrightarrow>
      tickers c' = tickers c @ [max (ttl c) Millisecond]) \<and>
   (isTTL c1 \<and> run h c1 = Inr c2 \<longrightarrow> tickers c2 = tickers c1) \<and>
   (run h (NewTTLCache d) = Inr c3 \<longrightarrow> tickers c3 = [max d Millisecond]) \<and>
   (run h NewCache = Inr c4 \<and> isTTL c4 \<longrightarrow> tickers c4 = [Millisecond])"
proof -
  have start: "tickers (NewTTLCache d :: 'v Cache) = [max d Millisecond]"
    by (simp add: NewTTLCache_def startTTLCleanupTimer_def Let_def max_def)
  have lazy: "\<not> isTTL c \<and> SetTTL now k v t c = Inr c' \<longrightarrow>
      tickers c' = tickers c @ [max (ttl c) Millisecond]"
    by (auto simp: SetTTL_def startTTLCleanupTimer_def Let_def max_def split: sum.splits)
  have keep: "isTTL c1 \<and> run h c1 = Inr c2 \<longrightarrow> tickers c2 = tickers c1"
    using run_isTTL by blast
  have eager: "run h (NewTTLCache d) = Inr c3 \<longrightarrow> tickers c3 = [max d Millisecond]"
    using run_isTTL [of h "NewTTLCache d" c3]
    by (auto simp: NewTTLCache_def startTTLCleanupTimer_def Let_def max_def)
  have late: "run h NewCache = Inr c4 \<and> isTTL c4 \<longrightarrow> tickers c4 = [Millisecond]"
    using run_tickers [of h NewCache c4]
    by (auto simp: NewCache_def Millisecond_def)
  from start lazy keep eager late show ?thesis by blast
qed

theorem ticker_period_fixed_witness:
  "\<not> isTTL key_only \<and>
   SetTTL 10 ''foo'' (Some 5) (2 * Second) key_only = Inr key_and_foo \<and>
   tickers key_and_foo = tickers key_only @ [max (ttl key_only) Millisecond] \<and>
   run readme_history NewCache = Inr key_and_foo \<and> isTTL key_and_foo \<and>
   tickers key_and_foo = [Millisecond] \<and>
   (\<exists>c'. run [(20, OpSetTTL ''bar'' (Some 6) Second), (30, OpTick)] key_and_foo = Inr c' \<and>
      tickers c' = [Millisecond])"
proof -
  have mode: "isTTL key_and_foo"
    by (simp add: key_and_foo_def)
  have off: "\<not> isTTL key_only"
    by (simp add: key_only_def)
  have first: "SetTTL 10 ''foo'' (Some 5) (2 * Second) key_only = Inr key_and_foo"
    by (simp add: key_only_def key_and_foo_def SetTTL_def startTTLCleanupTimer_def
        map_assign_def touch_def Millisecond_def Second_def)
  from ticker_period_fixed [where c = key_only and c' = key_and_foo and now = 10
      and k = "''foo''" and v = "Some 5" and t = "2 * Second"] off first
  have started: "tickers key_and_foo = tickers key_only @ [max (ttl key_only) Millisecond]"
    by blast
  from ticker_period_fixed [where h = readme_history and ?c4.0 = key_and_foo]
    readme_history_run mode
  have period: "tickers key_and_foo = [Millisecond]"
    by blast
  have "items key_and_foo \<noteq> None"
    by (simp add: key_and_foo_def)
  from run_total [OF this] obtain c'
    where later: "run [(20, OpSetTTL ''bar'' (Some 6) Second), (30, OpTick)] key_and_foo = Inr c'"
    by blast
  from ticker_period_fixed [where ?c1.0 = key_and_foo and ?c2.0 = c'
      and h = "[(20, OpSetTTL ''bar'' (Some 6) Second), (30, OpTick)]"] mode later
  have "tickers c' = tickers key_and_foo"
    by blast
  with period have "tickers c' = [Millisecond]"
    by simp
  with off first started readme_history_run mode period later show ?thesis
    by blast
qed

subsection \<open>Expirations and the mode\<close>

text \<open>
  Claim C7, as stated, fails. The claim: every operation preserves that no entry of an
  unbounded cache carries an expiration and that every entry of a cache in TTL mode carries
  one. After the plain write of the Readme example the invariant holds; the \<^verbatim>\<open>SetTTL\<close>
  that follows puts the cache in TTL mode, and the entry of the plain write is still
  without an expiration.
\<close>

theorem mode_invariant_counterexample:
  "run [(0, OpSet ''key'' (Some 200))] NewCache = Inr key_only \<and>
   mode_invariant key_only \<and>
   SetTTL 10 ''foo'' (Some 5) (2 * Second) key_only = Inr key_and_foo \<and>
   isTTL key_and_foo \<and>
   map_index (items key_and_foo) ''key'' = Some \<lparr>data = Some 200, expires = None\<rparr> \<and>
   \<not> mode_invariant key_and_foo"
proof -
  have plain: "run [(0, OpSet ''key'' (Some 200))] NewCache = Inr key_only"
    by (simp add: NewCache_def key_only_def Set_def map_assign_def)
  have timed: "SetTTL 10 ''foo'' (Some 5) (2 * Second) key_only = Inr key_and_foo"
    by (simp add: key_only_def key_and_foo_def SetTTL_def startTTLCleanupTimer_def
        map_assign_def touch_def Millisecond_def Second_def)
  have mode: "isTTL key_and_foo"
    by (simp add: key_and_foo_def)
  have old: "map_index (items key_and_foo) ''key'' = Some \<lparr>data = Some 200, expires = None\<rparr>"
    by (simp add: key_and_foo_def map_index_def)
  have broken: "\<not> mode_invariant key_and_foo"
  proof
    assume "mode_invariant key_and_foo"
    with old mode have "expires \<lparr>data = Some (200::nat), expires = None\<rparr> \<noteq> None"
      unfolding mode_invariant_iff by blast
    then show False by simp
  qed
  from plain key_only_invariant timed mode old broken show ?thesis
    by blast
qed

text \<open>
  Claim C7, amended. Both constructors establish the invariant and every call that keeps
  the mode preserves it: \<^verbatim>\<open>Set\<close>, \<^verbatim>\<open>Get\<close>, \<^verbatim>\<open>Delete\<close>, \<^verbatim>\<open>Clear\<close>, \<^verbatim>\<open>Count\<close>,
  the cleanup tick, and \<^verbatim>\<open>SetTTL\<close> on a cache in TTL mode. So it holds throughout for a
  cache of \<^verbatim>\<open>NewTTLCache\<close>, and for a cache of \<^verbatim>\<open>NewCache\<close> as long as it is unbounded.
  The \<^verbatim>\<open>SetTTL\<close> that leaves unbounded mode gives an expiration to the entry it writes
  and leaves every other entry as it was.
\<close>

theorem mode_invariant_preserved:
  "mode_invariant (NewCache :: 'v Cache) \<and>
   mode_invariant (NewTTLCache d :: 'v Cache) \<and>
   (mode_invariant (c :: 'v Cache) \<and> step now call c = Inr c' \<and> isTTL c' = isTTL c \<longrightarrow>
      mode_invariant c') \<and>
   (run h (NewTTLCache d) = Inr (c1 :: 'v Cache) \<longrightarrow> mode_invariant c1) \<and>
   (run h NewCache = Inr (c2 :: 'v Cache) \<and> \<not> isTTL c2 \<longrightarrow> mode_invariant c2) \<and>
   (\<not> isTTL (c3 :: 'v Cache) \<and> SetTTL now3 k3 v3 t3 c3 = Inr c4 \<longrightarrow>
      isTTL c4 \<and>
      (\<forall>k. map_index (items c4) k =
         (if k = k3 then Some \<lparr>data = v3, expires = Some (now3 + t3)\<rparr>
          else map_index (items c3) k)))"
proof -
  have fresh: "mode_invariant (NewCache :: 'v Cache)"
    by (simp add: mode_invariant_iff NewCache_def map_index_def)
  have timed: "mode_invariant (NewTTLCache d :: 'v Cache)"
    by (simp add: mode_invariant_iff NewTTLCache_def startTTLCleanupTimer_def map_index_def
        Let_def)
  have on: "isTTL (NewTTLCache d :: 'v Cache)"
    by (simp add: NewTTLCache_def startTTLCleanupTimer_def Let_def)
  have off: "\<not> isTTL (NewCache :: 'v Cache)"
    by (simp add: NewCache_def)
  have one: "mode_invariant c \<and> step now call c = Inr c' \<and> isTTL c' = isTTL c \<longrightarrow>
      mode_invariant c'"
    using step_mode_invariant by blast
  have eager: "run h (NewTTLCache d) = Inr c1 \<longrightarrow> mode_invariant c1"
  proof
    assume r: "run h (NewTTLCache d) = Inr c1"
    from run_isTTL [OF r on] on have "isTTL c1 = isTTL (NewTTLCache d :: 'v Cache)" by simp
    from run_mode_invariant [OF r timed this] show "mode_invariant c1" .
  qed
  have lazy: "run h NewCache = Inr c2 \<and> \<not> isTTL c2 \<longrightarrow> mode_invariant c2"
  proof
    assume a: "run h NewCache = Inr c2 \<and> \<not> isTTL c2"
    with off have "isTTL c2 = isTTL (NewCache :: 'v Cache)" by simp
    from run_mode_invariant [OF _ fresh this] a show "mode_invariant c2" by blast
  qed
  have switch: "\<not> isTTL c3 \<and> SetTTL now3 k3 v3 t3 c3 = Inr c4 \<longrightarrow>
      isTTL c4 \<and>
      (\<forall>k. map_index (items c4) k =
         (if k = k3 then Some \<lparr>data = v3, expires = Some (now3 + t3)\<rparr>
          else map_index (items c3) k))"
  proof
    assume a: "\<not> isTTL c3 \<and> SetTTL now3 k3 v3 t3 c3 = Inr c4"
    then have "isTTL c4"
      by (auto simp: SetTTL_def startTTLCleanupTimer_def Let_def split: sum.splits)
    with a SetTTL_index [of now3 k3 v3 t3 c3 c4]
    show "isTTL c4 \<and>
      (\<forall>k. map_index (items c4) k =
         (if k = k3 then Some \<lparr>data = v3, expires = Some (now3 + t3)\<rparr>
          else map_index (items c3) k))"
      by blast
  qed
  from fresh timed one eager lazy switch show ?thesis by blast
qed

theorem mode_invariant_preserved_witness:
  "mode_invariant ttl_example \<and>
   step 500 (OpGet ''x'') ttl_example = Inr (snd (Get 500 ''x'' ttl_example)) \<and>
   isTTL (snd (Get 500 ''x'' ttl_example)) = isTTL ttl_example \<and>
   mode_invariant (snd (Get 500 ''x'' ttl_example)) \<and>
   run [(0, OpSet ''key'' (Some 200))] NewCache = Inr key_only \<and> \<not> isTTL key_only \<and>
   mode_invariant key_only \<and>
   SetTTL 10 ''foo'' (Some 5) (2 * Second) key_only = Inr key_and_foo \<and>
   isTTL key_and_foo \<and>
   map_index (items key_and_foo) ''key'' = map_index (items key_only) ''key''"
proof -
  have same: "isTTL (snd (Get 500 ''x'' ttl_example)) = isTTL ttl_example"
    by (simp add: Get_def ttl_example_def map_index_def expired_def Let_def)
  have call: "step 500 (OpGet ''x'') ttl_example = Inr (snd (Get 500 ''x'' ttl_example))"
    by simp
  from mode_invariant_preserved [where c = ttl_example and now = 500 and call = "OpGet ''x''"
      and c' = "snd (Get 500 ''x'' ttl_example)"] ttl_example_invariant call same
  have kept: "mode_invariant (snd (Get 500 ''x'' ttl_example))"
    by blast
  have plain: "run [(0, OpSet ''key'' (Some 200))] NewCache = Inr key_only"
    by (simp add: NewCache_def key_only_def Set_def map_assign_def)
  have off: "\<not> isTTL key_only"
    by (simp add: key_only_def)
  from mode_invariant_preserved [where h = "[(0, OpSet ''key'' (Some 200))]"
      and ?c2.0 = key_only] plain off
  have unbounded: "mode_invariant key_only"
    by blast
  have timed: "SetTTL 10 ''foo'' (Some 5) (2 * Second) key_only = Inr key_and_foo"
    by (simp add: key_only_def key_and_foo_def SetTTL_def startTTLCleanupTimer_def
        map_assign_def touch_def Millisecond_def Second_def)
  from mode_invariant_preserved [where ?c3.0 = key_only and ?c4.0 = key_and_foo
      and ?now3.0 = 10 and ?k3.0 = "''foo''" and ?v3.0 = "Some 5" and ?t3.0 = "2 * Second"] off timed
  have switched: "isTTL key_and_foo \<and>
      (\<forall>k. map_index (items key_and_foo) k =
         (if k = ''foo'' then Some \<lparr>data = Some 5, expires = Some (10 + 2 * Second)\<rparr>
          else map_index (items key_only) k))"
    by blast
  then have old: "map_index (items key_and_foo) ''key'' = map_index (items key_only) ''key''"
    by simp
  from ttl_example_invariant call same kept plain off unbounded timed switched old
  show ?thesis by blast
qed

subsection \<open>Failure\<close>

text \<open>A zero-valued \<^verbatim>\<open>Cache\<close> has no map, and a write to it panics.\<close>

lemma zero_value_panics:
  "Set now k v \<lparr>ttl = 0, items = None, isTTL = False, tickers = []\<rparr> = Inl NilMapAssign \<and>
   SetTTL now k v t \<lparr>ttl = 0, items = None, isTTL = False, tickers = []\<rparr> = Inl NilMapAssign"
  by (simp add: Set_def SetTTL_def startTTLCleanupTimer_def map_assign_def Let_def)

text \<open>
  Claim C8. The only panic of \<^verbatim>\<open>cache.go\<close> is the assignment to a \<^verbatim>\<open>nil\<close> map in
  \<^verbatim>\<open>Set\<close> and \<^verbatim>\<open>SetTTL\<close>, which a zero-valued struct meets (lemma
  \<open>zero_value_panics\<close>). Both constructors allocate the map and no call makes it
  \<^verbatim>\<open>nil\<close>, so every history of calls on a cache of either constructor runs to its end
  without a panic. For a key that is not in the map \<^verbatim>\<open>Delete\<close> returns the cache as it
  was, and \<^verbatim>\<open>Get\<close> answers \<open>(nil, false)\<close>.
\<close>

theorem operations_total:
  "(\<exists>c'. run h (NewCache :: 'v Cache) = Inr c') \<and>
   (\<exists>c'. run h (NewTTLCache d :: 'v Cache) = Inr c') \<and>
   (items (c :: 'v Cache) \<noteq> None \<longrightarrow> (\<exists>c'. step now call c = Inr c' \<and> items c' \<noteq> None)) \<and>
   (map_index (items (c0 :: 'v Cache)) k = None \<longrightarrow>
      Delete k c0 = c0 \<and> Get now0 k c0 = ((None, False), c0))"
proof -
  have "items (NewCache :: 'v Cache) \<noteq> None"
    by (simp add: NewCache_def)
  from run_total [OF this] have fresh: "\<exists>c'. run h (NewCache :: 'v Cache) = Inr c'"
    by blast
  have "items (NewTTLCache d :: 'v Cache) \<noteq> None"
    by (simp add: NewTTLCache_def startTTLCleanupTimer_def Let_def)
  from run_total [OF this] have timed: "\<exists>c'. run h (NewTTLCache d :: 'v Cache) = Inr c'"
    by blast
  have one: "items c \<noteq> None \<longrightarrow> (\<exists>c'. step now call c = Inr c' \<and> items c' \<noteq> None)"
    using step_total by blast
  have absent: "map_index (items c0) k = None \<longrightarrow>
      Delete k c0 = c0 \<and> Get now0 k c0 = ((None, False), c0)"
    by (simp add: Delete_def Get_def Let_def)
  from fresh timed one absent show ?thesis by blast
qed

theorem operations_total_witness:
  "items key_only \<noteq> None \<and>
   (\<exists>c'. step 10 (OpSetTTL ''foo'' (Some 5) (2 * Second)) key_only = Inr c' \<and> items c' \<noteq> None) \<and>
   map_index (items unbounded_example) ''world'' = None \<and>
   Delete ''world'' unbounded_example = unbounded_example \<and>
   Get 900 ''world'' unbounded_example = ((None, False), unbounded_example)"
proof -
  have alloc: "items key_only \<noteq> None"
    by (simp add: key_only_def)
  have world: "map_index (items unbounded_example) ''world'' = None"
    by (simp add: unbounded_example_def map_index_def)
  from operations_total [where c = key_only and now = 10
      and call = "OpSetTTL ''foo'' (Some 5) (2 * Second)"] alloc
  have stored: "\<exists>c'. step 10 (OpSetTTL ''foo'' (Some 5) (2 * Second)) key_only = Inr c' \<and>
      items c' \<noteq> None"
    by blast
  from operations_total [where ?c0.0 = unbounded_example and k = "''world''" and ?now0.0 = 900]
    world
  have miss: "Delete ''world'' unbounded_example = unbounded_example \<and>
      Get 900 ''world'' unbounded_example = ((None, False), unbounded_example)"
    by blast
  from alloc stored world miss show ?thesis by blast
qed

end
